theory Spec2Isabelle
  imports Main "HOL-Library.Char_ord" "HOL-Library.List_Lexorder"
begin

section \<open>POSIX extended regular expressions, as the classifier uses them\<close>

text \<open>
  \<^verbatim>\<open>stringMatch\<close> compiles its pattern with \<^verbatim>\<open>cxxtools::Regex reg(pattern, REG_EXTENDED | REG_ICASE)\<close>
  and asks \<^verbatim>\<open>reg.match(text)\<close>, which is \<^verbatim>\<open>regexec\<close>: true iff some substring of the text
  belongs to the language of the pattern, letters compared without case. Without
  \<^verbatim>\<open>REG_NEWLINE\<close> the dot and a negated bracket expression match a newline as well.
  The patterns of the source are written below in abstract syntax, each beside its text.
\<close>

datatype cls =
    Lit char               \<comment> \<open>an ordinary character, compared without case\<close>
  | AnyChar                \<comment> \<open>\<^verbatim>\<open>.\<close>\<close>
  | Blank                  \<comment> \<open>\<^verbatim>\<open>[[:blank:]]\<close>: space and horizontal tab\<close>
  | NoneOf "char list"     \<comment> \<open>\<^verbatim>\<open>[^...]\<close>\<close>

datatype ere =
    Eps
  | Sym cls
  | Cat ere ere
  | Alt ere ere
  | Plus ere
  | Star ere
  | Opt ere

text \<open>
  \<^verbatim>\<open>REG_ICASE\<close> in the C locale: the letters \<open>A\<close> to \<open>Z\<close> (codes 65 to 90) are folded to
  \<open>a\<close> to \<open>z\<close> by setting the bit of value 32, every other character is kept.
\<close>

definition tolower :: "char \<Rightarrow> char" where
  "tolower c =
     (if c \<in> set ''ABCDEFGHIJKLMNOPQRSTUVWXYZ''
      then (case c of Char b0 b1 b2 b3 b4 b5 b6 b7 \<Rightarrow> Char b0 b1 b2 b3 b4 True b6 b7)
      else c)"

fun cls_ok :: "cls \<Rightarrow> char \<Rightarrow> bool" where
  "cls_ok (Lit c) x = (tolower x = tolower c)"
| "cls_ok AnyChar x = True"
| "cls_ok Blank x = (x = CHR '' '' \<or> x = CHR 0x09)"
| "cls_ok (NoneOf cs) x = (tolower x \<notin> tolower ` set cs)"

text \<open>
  \<open>iter f n s\<close>: the suffixes of \<open>s\<close> left after zero or more rounds of \<open>f\<close>, each round
  consuming at least one character; \<open>n\<close> bounds the rounds and is the length of \<open>s\<close>.
\<close>

fun iter :: "(string \<Rightarrow> string list) \<Rightarrow> nat \<Rightarrow> string \<Rightarrow> string list" where
  "iter f 0 s = [s]"
| "iter f (Suc n) s = s # concat (map (iter f n) (filter (\<lambda>t. length t < length s) (f s)))"

text \<open>\<open>residuals r s\<close>: every suffix \<open>t\<close> of \<open>s\<close> such that \<open>s = p @ t\<close> with \<open>p\<close> in the language of \<open>r\<close>.\<close>

fun residuals :: "ere \<Rightarrow> string \<Rightarrow> string list" where
  "residuals Eps s = [s]"
| "residuals (Sym k) s = (case s of [] \<Rightarrow> [] | x # xs \<Rightarrow> if cls_ok k x then [xs] else [])"
| "residuals (Cat a b) s = concat (map (residuals b) (residuals a s))"
| "residuals (Alt a b) s = residuals a s @ residuals b s"
| "residuals (Plus a) s = concat (map (\<lambda>t. iter (residuals a) (length t) t) (residuals a s))"
| "residuals (Star a) s = iter (residuals a) (length s) s"
| "residuals (Opt a) s = s # residuals a s"

text \<open>\<^verbatim>\<open>regexec\<close> searches: the match may start at any position of the text.\<close>

fun regexec :: "ere \<Rightarrow> string \<Rightarrow> bool" where
  "regexec r [] = (residuals r [] \<noteq> [])"
| "regexec r (x # xs) = (residuals r (x # xs) \<noteq> [] \<or> regexec r xs)"

text \<open>
  \<^verbatim>\<open>cxxtools::Regex::match\<close> hands \<^verbatim>\<open>str.c_str()\<close> to \<^verbatim>\<open>regexec\<close>, which reads it up to the first
  NUL character.
\<close>

definition c_str :: "string \<Rightarrow> string" where
  "c_str str = takeWhile (\<lambda>c. c \<noteq> CHR 0x00) str"

definition Regex_match :: "ere \<Rightarrow> string \<Rightarrow> bool" where
  "Regex_match reg str = regexec reg (c_str str)"

text \<open>The language of a pattern, for reference: \<open>regexec\<close> is shown below to decide it.\<close>

fun lang :: "ere \<Rightarrow> string set" where
  "lang Eps = {[]}"
| "lang (Sym k) = {[x] | x. cls_ok k x}"
| "lang (Cat a b) = {u @ v | u v. u \<in> lang a \<and> v \<in> lang b}"
| "lang (Alt a b) = lang a \<union> lang b"
| "lang (Plus a) = {concat ws | ws. ws \<noteq> [] \<and> set ws \<subseteq> lang a}"
| "lang (Star a) = {concat ws | ws. set ws \<subseteq> lang a}"
| "lang (Opt a) = insert [] (lang a)"

fun lit :: "string \<Rightarrow> ere" where
  "lit [] = Eps"
| "lit [c] = Sym (Lit c)"
| "lit (c # cs) = Cat (Sym (Lit c)) (lit cs)"

fun cat :: "ere list \<Rightarrow> ere" where
  "cat [] = Eps"
| "cat [r] = r"
| "cat (r # rs) = Cat r (cat rs)"

fun alt :: "ere list \<Rightarrow> ere" where
  "alt [] = Eps"
| "alt [r] = r"
| "alt (r # rs) = Alt r (alt rs)"

abbreviation blank :: ere where "blank \<equiv> Sym Blank"
abbreviation dquote :: ere where "dquote \<equiv> Sym (Lit (CHR 0x22))"

section \<open>The patterns of nut_configurator.cc\<close>

text \<open>\<^verbatim>\<open>[[:blank:]]driver[[:blank:]]+=[[:blank:]]+"netxml-ups"\<close>\<close>

definition NUTConfigXMLPattern :: ere where
  "NUTConfigXMLPattern =
     cat [blank, lit ''driver'', Plus blank, lit ''='', Plus blank,
          dquote, lit ''netxml-ups'', dquote]"

text \<open>
  \<^verbatim>\<open>[[:blank:]](mibs[[:blank:]]+=[[:blank:]]+"(eaton_epdu|aphel_genesisII|aphel_revelation|pulizzi_switched1|pulizzi_switched2|emerson_avocent_pdu)"|desc[[:blank:]]+=[[:blank:]]+"[^"]+ epdu [^"]+")\<close>
\<close>

definition NUTConfigEpduPattern :: ere where
  "NUTConfigEpduPattern =
     Cat blank
       (Alt
         (cat [lit ''mibs'', Plus blank, lit ''='', Plus blank, dquote,
               alt [lit ''eaton_epdu'', lit ''aphel_genesisII'', lit ''aphel_revelation'',
                    lit ''pulizzi_switched1'', lit ''pulizzi_switched2'',
                    lit ''emerson_avocent_pdu''],
               dquote])
         (cat [lit ''desc'', Plus blank, lit ''='', Plus blank, dquote,
               Plus (Sym (NoneOf [CHR 0x22])), lit '' epdu '', Plus (Sym (NoneOf [CHR 0x22])),
               dquote]))"

text \<open>\<^verbatim>\<open>[[:blank:]]driver[[:blank:]]+=[[:blank:]]+"snmp-ups(-old|-dmf)?"\<close>\<close>

definition NUTConfigCanSnmpPattern :: ere where
  "NUTConfigCanSnmpPattern =
     cat [blank, lit ''driver'', Plus blank, lit ''='', Plus blank,
          dquote, lit ''snmp-ups'', Opt (Alt (lit ''-old'') (lit ''-dmf'')), dquote]"

text \<open>\<^verbatim>\<open>[[:blank:]]mibs[[:blank:]]*=[[:blank:]]*"[^"]*ats[^"]*"\<close>\<close>

definition NUTConfigATSPattern :: ere where
  "NUTConfigATSPattern =
     cat [blank, lit ''mibs'', Star blank, lit ''='', Star blank, dquote,
          Star (Sym (NoneOf [CHR 0x22])), lit ''ats'', Star (Sym (NoneOf [CHR 0x22])), dquote]"

section \<open>Classifier and Selector\<close>

text \<open>
  An iterator into \<open>texts\<close> is its distance from \<^verbatim>\<open>texts.begin()\<close>; \<^verbatim>\<open>texts.end()\<close> is
  \<open>length texts\<close>.
\<close>

fun stringMatch :: "string list \<Rightarrow> ere \<Rightarrow> nat" where
  "stringMatch [] pattern = 0"
| "stringMatch (t # ts) pattern =
     (if Regex_match pattern t then 0 else Suc (stringMatch ts pattern))"

definition match :: "string list \<Rightarrow> ere \<Rightarrow> bool" where
  "match texts pattern = (stringMatch texts pattern \<noteq> length texts)"

definition isEpdu :: "string list \<Rightarrow> bool" where
  "isEpdu texts = match texts NUTConfigEpduPattern"

definition isAts :: "string list \<Rightarrow> bool" where
  "isAts texts = match texts NUTConfigATSPattern"

definition isUps :: "string list \<Rightarrow> bool" where
  "isUps texts = (\<not> (isEpdu texts \<or> isAts texts))"

definition canSnmp :: "string list \<Rightarrow> bool" where
  "canSnmp texts = match texts NUTConfigCanSnmpPattern"

definition canXml :: "string list \<Rightarrow> bool" where
  "canXml texts = match texts NUTConfigXMLPattern"

text \<open>
  \<^verbatim>\<open>snmpMibPriority = { "pw", "mge", ".+" }\<close>; each entry is spliced into
  \<^verbatim>\<open>.+[[:blank:]]mibs[[:blank:]]+=[[:blank:]]+"\<close> \<open>mib\<close> \<^verbatim>\<open>"\<close>.
\<close>

definition snmpMibPriority :: "ere list" where
  "snmpMibPriority = [lit ''pw'', lit ''mge'', Plus (Sym AnyChar)]"

definition mibPattern :: "ere \<Rightarrow> ere" where
  "mibPattern mib =
     cat [Plus (Sym AnyChar), blank, lit ''mibs'', Plus blank, lit ''='', Plus blank,
          dquote, mib, dquote]"

fun getBestSnmpMib_loop :: "string list \<Rightarrow> ere list \<Rightarrow> nat" where
  "getBestSnmpMib_loop configs [] = length configs"
| "getBestSnmpMib_loop configs (mib # mibs) =
     (let it = stringMatch configs (mibPattern mib)
      in if it \<noteq> length configs then it else getBestSnmpMib_loop configs mibs)"

definition getBestSnmpMib :: "string list \<Rightarrow> nat" where
  "getBestSnmpMib configs = getBestSnmpMib_loop configs snmpMibPriority"

definition selectBest :: "string list \<Rightarrow> nat" where
  "selectBest configs =
     (if length configs \<le> 1 then 0
      else if canSnmp configs \<and> (isEpdu configs \<or> isAts configs) then getBestSnmpMib configs
      else if canXml configs then stringMatch configs NUTConfigXMLPattern
      else getBestSnmpMib configs)"

section \<open>Process state and external collaborators\<close>

text \<open>
  What the configurator does to the outside is recorded as a trace: every subprocess it
  starts (with the outcome the process facility reports), every file it writes or removes
  and every call of \<^verbatim>\<open>mkdir_if_needed\<close>. Log messages are not part of the model.
\<close>

datatype event =
    Exec "string list" "int option"   \<comment> \<open>argv; \<open>None\<close> when \<^verbatim>\<open>run()\<close> fails, else the result of \<^verbatim>\<open>wait()\<close>\<close>
  | Write string string               \<comment> \<open>path, content: a \<^verbatim>\<open>std::ofstream\<close> opened on the path and fed\<close>
  | Remove string
  | MkdirIfNeeded string

text \<open>
  \<open>files\<close> maps a path, as the operating system reads it, to the content stored there,
  \<open>None\<close> when there is no file; whether the file opens is the environment's word below.
  \<open>start_drivers\<close> and \<open>stop_drivers\<close> (the members \<^verbatim>\<open>start_drivers_\<close> and \<^verbatim>\<open>stop_drivers_\<close>) are
  \<^verbatim>\<open>std::set<std::string>\<close>: kept as the sorted, duplicate-free sequence an iteration yields.
\<close>

record nut_state =
  files :: "string \<Rightarrow> string option"
  start_drivers :: "string list"
  stop_drivers :: "string list"
  trace :: "event list"

text \<open>The fields of the asset that \<^verbatim>\<open>configure\<close> reads through \<^verbatim>\<open>info.asset\<close>.\<close>

record asset =
  have_upsconf_block :: bool
  upsconf_block :: string
  IP :: string
  upsconf_enable_dmf :: bool

text \<open>
  The collaborators outside nut_configurator.cc, taken as parameters:
  \<^item> \<open>polling_cfg\<close>: \<^verbatim>\<open>zconfig_load ("/etc/fty-nut/fty-nut.cfg")\<close>, \<open>None\<close> when it fails, else the
    value stored under \<^verbatim>\<open>nut/polling_interval\<close>, \<open>None\<close> when the key is absent;
  \<^item> \<open>snmp_cfg\<close>: \<^verbatim>\<open>zconfig_load ("/etc/default/fty.cfg")\<close>, then the item \<^verbatim>\<open>snmp/community\<close>
    as its own value and the values of its children;
  \<^item> \<open>nut_scan_snmp name ip community use_dmf configs\<close>: the return code and the vector
    \<open>configs\<close> as the call leaves it;
  \<^item> \<open>nut_scan_xml_http name ip configs\<close>: the vector \<open>configs\<close> as the call leaves it;
  \<^item> \<open>digest\<close>: the hexadecimal SHA-1 string of \<^verbatim>\<open>zdigest\<close>;
  \<^item> \<open>run argv\<close>: the outcome of \<^verbatim>\<open>MlmSubprocess::SubProcess\<close> on \<open>argv\<close>;
  \<^item> \<open>opens_for_read path\<close>: whether \<^verbatim>\<open>open (path, O_NOFOLLOW | O_RDONLY)\<close> succeeds on the file
    at \<open>path\<close>; it fails on a symbolic link and on a file without read permission;
  \<^item> \<open>opens_for_write path\<close>: whether \<^verbatim>\<open>std::ofstream::open\<close> succeeds on \<open>path\<close>, creating
    or truncating the file; the source checks neither the opening nor the writing;
  \<^item> \<open>removes path\<close>: whether \<^verbatim>\<open>remove\<close> succeeds on \<open>path\<close>; the source ignores its result.
\<close>

record env =
  polling_cfg :: "string option option"
  snmp_cfg :: "(string \<times> string list) option option"
  nut_scan_snmp :: "string \<Rightarrow> string \<Rightarrow> string \<Rightarrow> bool \<Rightarrow> string list \<Rightarrow> int \<times> string list"
  nut_scan_xml_http :: "string \<Rightarrow> string \<Rightarrow> string list \<Rightarrow> string list"
  digest :: "string \<Rightarrow> string"
  run :: "string list \<Rightarrow> int option"
  opens_for_read :: "string \<Rightarrow> bool"
  opens_for_write :: "string \<Rightarrow> bool"
  removes :: "string \<Rightarrow> bool"

definition NUT_PART_STORE :: string where
  "NUT_PART_STORE = ''/var/lib/fty/fty-nut/devices''"

text \<open>\<^verbatim>\<open>path_separator()\<close> of fty_common_filesystem.\<close>

definition path_separator :: string where
  "path_separator = ''/''"

text \<open>\<^verbatim>\<open>std::set::insert\<close>.\<close>

definition set_insert :: "string \<Rightarrow> string list \<Rightarrow> string list" where
  "set_insert x xs = insort_insert x xs"

section \<open>Service manager and helper invocations\<close>

text \<open>The iterator-range overload of \<^verbatim>\<open>systemctl\<close>; \<open>units\<close> is the range \<open>[first, last)\<close>.\<close>

definition systemctl :: "env \<Rightarrow> string \<Rightarrow> string list \<Rightarrow> nut_state \<Rightarrow> nut_state" where
  "systemctl e operation units st =
     (if units = [] then st
      else
        let argv = [''sudo'', ''systemctl'', operation] @ units
        in st\<lparr>trace := trace st @ [Exec argv (run e argv)]\<rparr>)"

text \<open>The single-service overload: the range holding just \<open>service\<close>.\<close>

definition systemctl1 :: "env \<Rightarrow> string \<Rightarrow> string \<Rightarrow> nut_state \<Rightarrow> nut_state" where
  "systemctl1 e operation service st = systemctl e operation [service] st"

definition updateNUTConfig :: "env \<Rightarrow> nut_state \<Rightarrow> nut_state" where
  "updateNUTConfig e st =
     (let argv = [''sudo'', ''fty-nutconfig'']
      in st\<lparr>trace := trace st @ [Exec argv (run e argv)]\<rparr>)"

definition commit :: "env \<Rightarrow> nut_state \<Rightarrow> nut_state" where
  "commit e st =
     (let st1 = systemctl e ''disable'' (stop_drivers st) st;
          st2 = systemctl e ''stop'' (stop_drivers st1) st1;
          st3 = updateNUTConfig e st2;
          st4 = systemctl e ''restart'' (start_drivers st3) st3;
          st5 = systemctl e ''enable'' (start_drivers st4) st4;
          st6 = (if stop_drivers st5 \<noteq> [] \<or> start_drivers st5 \<noteq> []
                 then systemctl1 e ''reload-or-restart'' ''nut-server'' st5 else st5);
          st7 = st6\<lparr>stop_drivers := []\<rparr>
      in st7\<lparr>start_drivers := []\<rparr>)"

text \<open>\<^verbatim>\<open>remove\<close> receives \<^verbatim>\<open>fileName.c_str()\<close>: the path up to its first NUL character.\<close>

definition erase :: "env \<Rightarrow> string \<Rightarrow> nut_state \<Rightarrow> nut_state" where
  "erase e name st =
     (let fileName = NUT_PART_STORE @ path_separator @ name
      in st\<lparr>files := (if removes e (c_str fileName) then (files st)(c_str fileName := None)
                      else files st),
            trace := trace st @ [Remove (c_str fileName)],
            stop_drivers := set_insert (''nut-driver@'' @ name) (stop_drivers st)\<rparr>)"

section \<open>configure\<close>

datatype error = OutOfRange   \<comment> \<open>\<^verbatim>\<open>std::out_of_range\<close>, thrown by \<^verbatim>\<open>std::string::at\<close>\<close>

text \<open>
  \<^verbatim>\<open>s_digest (const char* file)\<close>: \<^verbatim>\<open>NULL\<close> when \<^verbatim>\<open>open (file, O_NOFOLLOW | O_RDONLY)\<close> fails, for
  want of a file or because the file there does not open.
\<close>

definition s_digest_file :: "env \<Rightarrow> nut_state \<Rightarrow> string \<Rightarrow> string option" where
  "s_digest_file e st file =
     (case files st file of
        None \<Rightarrow> None
      | Some buffer \<Rightarrow> if opens_for_read e file then Some (digest e buffer) else None)"

text \<open>\<^verbatim>\<open>s_digest (const std::stringstream& s)\<close>.\<close>

definition s_digest_stream :: "env \<Rightarrow> string \<Rightarrow> string" where
  "s_digest_stream e s = digest e s"

text \<open>The polling interval, read first.\<close>

definition polling_interval :: "env \<Rightarrow> string" where
  "polling_interval e =
     (case polling_cfg e of
        None \<Rightarrow> ''30''
      | Some config \<Rightarrow> (case config of None \<Rightarrow> ''30'' | Some v \<Rightarrow> v))"

text \<open>
  The branch of an asset with an \<^verbatim>\<open>upsconf_block\<close>: \<open>UBA\<close> is the block as the asset stores
  it. \<^verbatim>\<open>at\<close> checks its index and throws.
\<close>

definition upsconf_configs :: "string \<Rightarrow> string \<Rightarrow> error + string list" where
  "upsconf_configs name UBA =
     (if \<not> 0 < length UBA then Inl OutOfRange
      else
        let SEP = UBA ! 0 in
        if SEP = CHR 0x00 then Inr [''['' @ name @ '']\<newline>\<newline>'']
        else if \<not> 1 < length UBA then Inl OutOfRange
        else if UBA ! 1 = CHR 0x00 then Inr [''['' @ name @ '']\<newline>\<newline>'']
        else
          let UBN = map (\<lambda>c. if c = SEP then CHR 0x0A else c) (drop 1 UBA) in
          if \<not> 0 < length UBN then Inl OutOfRange
          else if UBN ! 0 = CHR ''['' then Inr [UBN @ ''\<newline>'']
          else Inr [''['' @ name @ '']\<newline>'' @ UBN @ ''\<newline>''])"

text \<open>The SNMP communities: the non-empty children of the item, else its own value.\<close>

fun community_children :: "string list \<Rightarrow> bool \<times> string list \<Rightarrow> bool \<times> string list" where
  "community_children [] acc = acc"
| "community_children (child # rest) (is_array, communities) =
     (if child \<noteq> [] then community_children rest (True, communities @ [child])
      else community_children rest (is_array, communities))"

definition read_communities :: "env \<Rightarrow> string list" where
  "read_communities e =
     (let communities =
        (case snmp_cfg e of
           None \<Rightarrow> []
         | Some config \<Rightarrow>
             (case config of
                None \<Rightarrow> []
              | Some (item, children) \<Rightarrow>
                  (let (is_array, communities) = community_children children (False, [])
                   in if \<not> is_array \<and> item \<noteq> [] then communities @ [item]
                      else communities)))
      in communities @ [''public''])"

text \<open>The loop over the communities, left at the first scan that returns 0 with a non-empty vector.\<close>

fun scan_communities ::
  "env \<Rightarrow> string \<Rightarrow> string \<Rightarrow> bool \<Rightarrow> string list \<Rightarrow> string list \<Rightarrow> string list" where
  "scan_communities e name ip use_dmf [] configs = configs"
| "scan_communities e name ip use_dmf (c # cs) configs =
     (let (rc, configs') = nut_scan_snmp e name ip c use_dmf configs
      in if rc = 0 \<and> configs' \<noteq> [] then configs'
         else scan_communities e name ip use_dmf cs configs')"

definition probe_configs :: "env \<Rightarrow> string \<Rightarrow> asset \<Rightarrow> string list" where
  "probe_configs e name info =
     (let configs = scan_communities e name (IP info) (upsconf_enable_dmf info)
                      (read_communities e) []
      in nut_scan_xml_http e name (IP info) configs)"

text \<open>The text streamed into \<open>cfg\<close> from the selected candidate \<open>s\<close>; \<open>CHR 0x09\<close> is the tab.\<close>

definition render_cfg :: "string \<Rightarrow> string \<Rightarrow> string" where
  "render_cfg s polling =
     (let cfg = s;
          foo = [s];
          cfg = (if isEpdu foo \<and> canSnmp foo
                 then cfg @ CHR 0x09 # ''synchronous = yes\<newline>'' else cfg);
          cfg = (if canXml foo then cfg @ CHR 0x09 # ''timeout = 15\<newline>'' else cfg)
      in if canSnmp foo then cfg @ CHR 0x09 # ''pollfreq = '' @ polling @ ''\<newline>''
         else cfg @ CHR 0x09 # ''pollinterval = '' @ polling @ ''\<newline>'')"

text \<open>
  From \<^verbatim>\<open>selectBest\<close> to the end of \<^verbatim>\<open>configure\<close>, for the vector \<open>configs\<close> gathered before.
  \<^verbatim>\<open>s_digest\<close> and \<^verbatim>\<open>cfgFile.open\<close> read \<open>config_name\<close> as a C string. The stream is opened and
  fed without any check, and the driver is inserted whether or not the file took the text.
\<close>

definition write_config :: "env \<Rightarrow> string \<Rightarrow> string \<Rightarrow> string list \<Rightarrow> nut_state \<Rightarrow> bool \<times> nut_state" where
  "write_config e name polling configs st =
     (let it = selectBest configs in
      if it = length configs then (False, st)
      else
        let deviceDir = NUT_PART_STORE;
            st1 = st\<lparr>trace := trace st @ [MkdirIfNeeded deviceDir]\<rparr>;
            config_name = NUT_PART_STORE @ path_separator @ name;
            digest_old = s_digest_file e st1 (c_str config_name);
            cfg = render_cfg (configs ! it) polling;
            digest_new = s_digest_stream e cfg
        in if digest_old = None \<or> digest_old \<noteq> Some digest_new
           then (True, st1\<lparr>files := (if opens_for_write e (c_str config_name)
                                    then (files st1)(c_str config_name \<mapsto> cfg)
                                    else files st1),
                          trace := trace st1 @ [Write (c_str config_name) cfg],
                          start_drivers := set_insert (''nut-driver@'' @ name) (start_drivers st1)\<rparr>)
           else (True, st1))"

text \<open>
  The vector \<open>configs\<close> as \<^verbatim>\<open>selectBest\<close> receives it: from the asset's block, or from the
  scanners. \<open>Inr None\<close> is the \<^verbatim>\<open>return true\<close> of a device without IP address.
\<close>

definition gather_configs :: "env \<Rightarrow> string \<Rightarrow> asset \<Rightarrow> error + string list option" where
  "gather_configs e name info =
     (if have_upsconf_block info then
        (case upsconf_configs name (upsconf_block info) of
           Inl err \<Rightarrow> Inl err
         | Inr configs \<Rightarrow> Inr (Some configs))
      else if IP info = [] then Inr None
      else Inr (Some (probe_configs e name info)))"

definition configure :: "env \<Rightarrow> string \<Rightarrow> asset \<Rightarrow> nut_state \<Rightarrow> error + bool \<times> nut_state" where
  "configure e name info st =
     (let polling = polling_interval e in
      case gather_configs e name info of
        Inl err \<Rightarrow> Inl err
      | Inr None \<Rightarrow> Inr (True, st)
      | Inr (Some configs) \<Rightarrow> Inr (write_config e name polling configs st))"

section \<open>The specification's vocabulary\<close>

text \<open>The candidate an iterator designates; \<^verbatim>\<open>end()\<close> designates none.\<close>

definition candidate_at :: "string list \<Rightarrow> nat \<Rightarrow> string option" where
  "candidate_at configs it = (if it < length configs then Some (configs ! it) else None)"

text \<open>A flag of a CandidateSet: true if any member matches.\<close>

definition any_matches :: "ere \<Rightarrow> string list \<Rightarrow> bool" where
  "any_matches pattern configs = (\<exists>c \<in> set configs. Regex_match pattern c)"

definition first_matching :: "ere \<Rightarrow> string list \<Rightarrow> string option" where
  "first_matching pattern configs = find (Regex_match pattern) configs"

text \<open>MIB-priority search: \<open>pw\<close>, then \<open>mge\<close>, then the catch-all.\<close>

definition mib_priority_search :: "string list \<Rightarrow> string option" where
  "mib_priority_search configs =
     (case first_matching (mibPattern (lit ''pw'')) configs of
        Some c \<Rightarrow> Some c
      | None \<Rightarrow>
          (case first_matching (mibPattern (lit ''mge'')) configs of
             Some c \<Rightarrow> Some c
           | None \<Rightarrow> first_matching (mibPattern (Plus (Sym AnyChar))) configs))"

text \<open>The Selector's rules 1 to 3 for a set of more than one member.\<close>

definition select_policy :: "string list \<Rightarrow> string option" where
  "select_policy configs =
     (if any_matches NUTConfigCanSnmpPattern configs \<and>
         (any_matches NUTConfigEpduPattern configs \<or> any_matches NUTConfigATSPattern configs)
      then mib_priority_search configs
      else if any_matches NUTConfigXMLPattern configs
      then first_matching NUTConfigXMLPattern configs
      else mib_priority_search configs)"

text \<open>The Renderer's lines, by the flags of the selected candidate.\<close>

definition synchronous_line :: string where
  "synchronous_line = CHR 0x09 # ''synchronous = yes\<newline>''"

definition timeout_line :: string where
  "timeout_line = CHR 0x09 # ''timeout = 15\<newline>''"

definition cadence_line :: "bool \<Rightarrow> string \<Rightarrow> string" where
  "cadence_line snmp polling =
     CHR 0x09 # (if snmp then ''pollfreq'' else ''pollinterval'') @ '' = '' @ polling @ ''\<newline>''"

definition tuning_lines :: "bool \<Rightarrow> bool \<Rightarrow> bool \<Rightarrow> string \<Rightarrow> string list" where
  "tuning_lines epdu snmp xml polling =
     (if epdu \<and> snmp then [synchronous_line] else []) @
     (if xml then [timeout_line] else []) @
     [cadence_line snmp polling]"

definition rendered_text :: "string \<Rightarrow> string \<Rightarrow> string" where
  "rendered_text selected polling =
     selected @
     concat (tuning_lines (Regex_match NUTConfigEpduPattern selected)
               (Regex_match NUTConfigCanSnmpPattern selected)
               (Regex_match NUTConfigXMLPattern selected) polling)"

text \<open>
  The file of a device, as the operating system reads its path (up to the first NUL
  character of the name), and its driver's service.
\<close>

definition config_path :: "string \<Rightarrow> string" where
  "config_path name = ''/var/lib/fty/fty-nut/devices/'' @ c_str name"

definition driver_service :: "string \<Rightarrow> string" where
  "driver_service name = ''nut-driver@'' @ name"

text \<open>
  The Change Detector's decision: no prior file, or a prior file that cannot be opened for
  hashing, or the hashes differ.
\<close>

definition should_write :: "env \<Rightarrow> nut_state \<Rightarrow> string \<Rightarrow> string \<Rightarrow> bool" where
  "should_write e st name newText =
     (case files st (config_path name) of
        None \<Rightarrow> True
      | Some old \<Rightarrow>
          \<not> opens_for_read e (config_path name) \<or> digest e old \<noteq> digest e newText)"

text \<open>
  Projections of a trace: the texts streamed to files and the command lines started, in
  order.
\<close>

fun writes :: "event list \<Rightarrow> (string \<times> string) list" where
  "writes [] = []"
| "writes (Write path content # evs) = (path, content) # writes evs"
| "writes (ev # evs) = writes evs"

fun execs :: "event list \<Rightarrow> string list list" where
  "execs [] = []"
| "execs (Exec argv outcome # evs) = argv # execs evs"
| "execs (ev # evs) = execs evs"

text \<open>What one call added to the trace.\<close>

definition new_events :: "nut_state \<Rightarrow> nut_state \<Rightarrow> event list" where
  "new_events st st' = drop (length (trace st)) (trace st')"

text \<open>One batched service-manager call over a whole set; none for an empty set.\<close>

definition batch :: "string \<Rightarrow> string list \<Rightarrow> string list list" where
  "batch verb services =
     (if services = [] then [] else [''sudo'' # ''systemctl'' # verb # services])"

definition helper_call :: "string list" where
  "helper_call = [''sudo'', ''fty-nutconfig'']"

definition umbrella_call :: "string list" where
  "umbrella_call = [''sudo'', ''systemctl'', ''reload-or-restart'', ''nut-server'']"

definition commit_sequence :: "string list \<Rightarrow> string list \<Rightarrow> string list list" where
  "commit_sequence to_stop to_start =
     batch ''disable'' to_stop @ batch ''stop'' to_stop @ [helper_call] @
     batch ''restart'' to_start @ batch ''enable'' to_start @
     (if to_stop \<noteq> [] \<or> to_start \<noteq> [] then [umbrella_call] else [])"

text \<open>The service-manager calls of one verb among command lines.\<close>

definition calls_of :: "string \<Rightarrow> string list list \<Rightarrow> string list list" where
  "calls_of verb argvs = filter (\<lambda>argv. take 3 argv = [''sudo'', ''systemctl'', verb]) argvs"

text \<open>An override block after its separator: the rest, with the separator turned into newlines.\<close>

definition substitute_separator :: "string \<Rightarrow> string" where
  "substitute_separator block =
     map (\<lambda>c. if c = hd block then CHR 0x0A else c) (tl block)"

text \<open>
  The candidate made of an override block: its body as it is when the body starts with a
  bracket, else under a device tag made of the device's name; a newline closes it.
\<close>

definition block_candidate :: "string \<Rightarrow> string \<Rightarrow> string" where
  "block_candidate name block =
     (let body = substitute_separator block
      in if hd body = CHR ''['' then body @ ''\<newline>''
         else ''['' @ name @ '']\<newline>'' @ body @ ''\<newline>'')"

section \<open>Sample inputs\<close>

text \<open>A line of nut-scanner output: tab, key, \<open> = \<close>, the value in double quotes, newline.\<close>

definition config_line :: "string \<Rightarrow> string \<Rightarrow> string" where
  "config_line k v = CHR 0x09 # k @ '' = '' @ CHR 0x22 # v @ [CHR 0x22, CHR 0x0A]"

definition sample_pw :: string where
  "sample_pw = ''[ups1]\<newline>'' @ config_line ''driver'' ''snmp-ups'' @
     config_line ''desc'' ''Eaton ePDU unit'' @ config_line ''mibs'' ''pw''"

definition sample_mge :: string where
  "sample_mge = ''[ups1]\<newline>'' @ config_line ''driver'' ''snmp-ups'' @
     config_line ''mibs'' ''mge''"

definition sample_xml :: string where
  "sample_xml = ''[ups1]\<newline>'' @ config_line ''driver'' ''netxml-ups'' @
     config_line ''port'' ''http://10.0.0.1''"

text \<open>
  An environment whose SNMP scan finds \<open>sample_pw\<close>, whose XML scan finds nothing, whose
  polling interval is 60, whose digest is the text itself, whose subprocesses cannot run
  and whose files open.
\<close>

definition sample_env :: env where
  "sample_env = \<lparr>polling_cfg = Some (Some ''60''), snmp_cfg = None,
     nut_scan_snmp = (\<lambda>name ip community use_dmf configs. (0, configs @ [sample_pw])),
     nut_scan_xml_http = (\<lambda>name ip configs. configs),
     digest = (\<lambda>s. s),
     run = (\<lambda>argv. None),
     opens_for_read = (\<lambda>path. True),
     opens_for_write = (\<lambda>path. True),
     removes = (\<lambda>path. True)\<rparr>"


text \<open>An environment whose scans find nothing.\<close>

definition silent_env :: env where
  "silent_env = \<lparr>polling_cfg = None, snmp_cfg = None,
     nut_scan_snmp = (\<lambda>name ip community use_dmf configs. (1, configs)),
     nut_scan_xml_http = (\<lambda>name ip configs. configs),
     digest = (\<lambda>s. s),
     run = (\<lambda>argv. None),
     opens_for_read = (\<lambda>path. True),
     opens_for_write = (\<lambda>path. True),
     removes = (\<lambda>path. True)\<rparr>"

definition probed_asset :: asset where
  "probed_asset = \<lparr>have_upsconf_block = False, upsconf_block = [], IP = ''10.0.0.1'',
     upsconf_enable_dmf = False\<rparr>"

definition no_ip_asset :: asset where
  "no_ip_asset = \<lparr>have_upsconf_block = False, upsconf_block = [], IP = [],
     upsconf_enable_dmf = False\<rparr>"

definition block_asset :: "string \<Rightarrow> asset" where
  "block_asset block = \<lparr>have_upsconf_block = True, upsconf_block = block, IP = [],
     upsconf_enable_dmf = False\<rparr>"

definition fresh_state :: nut_state where
  "fresh_state = \<lparr>files = Map.empty, start_drivers = [], stop_drivers = [], trace = []\<rparr>"

definition pending_state :: nut_state where
  "pending_state = \<lparr>files = Map.empty, start_drivers = [''nut-driver@ups1''],
     stop_drivers = [''nut-driver@ups2'', ''nut-driver@ups3''], trace = []\<rparr>"

text \<open>What \<open>sample_pw\<close> renders to at polling interval 60, and the state once it is written.\<close>

definition sample_rendered :: string where
  "sample_rendered = sample_pw @ CHR 0x09 # ''synchronous = yes\<newline>'' @
     CHR 0x09 # ''pollfreq = 60\<newline>''"

definition configured_state :: nut_state where
  "configured_state = \<lparr>files = [''/var/lib/fty/fty-nut/devices/ups1'' \<mapsto> sample_rendered],
     start_drivers = [''nut-driver@ups1''], stop_drivers = [],
     trace = [MkdirIfNeeded ''/var/lib/fty/fty-nut/devices'',
              Write ''/var/lib/fty/fty-nut/devices/ups1'' sample_rendered]\<rparr>"


section \<open>The matcher decides the language of a pattern\<close>

lemma concat_drop_empty: "concat (filter (\<lambda>w. w \<noteq> []) ws) = concat ws"
  by (induction ws) auto

lemma iter_residuals:
  assumes f: "\<And>t. set (f t) = {t'. \<exists>p. t = p @ t' \<and> p \<in> L}"
  shows "length s \<le> n \<Longrightarrow> set (iter f n s) = {t. \<exists>ws. set ws \<subseteq> L \<and> s = concat ws @ t}"
proof (induction n arbitrary: s)
  case 0
  then have "s = []" by simp
  moreover have "\<exists>ws. set ws \<subseteq> L \<and> [] = concat ws"
    by (rule exI [of _ "[]"]) simp
  ultimately show ?case by auto
next
  case (Suc n)
  have step: "set (iter f n t') = {t. \<exists>ws. set ws \<subseteq> L \<and> t' = concat ws @ t}"
    if "t' \<in> set (f s)" "length t' < length s" for t'
    using that Suc.prems by (intro Suc.IH) simp
  show ?case
  proof (intro set_eqI iffI)
    fix t
    assume "t \<in> set (iter f (Suc n) s)"
    then consider "t = s" | t' where "t' \<in> set (f s)" "length t' < length s" "t \<in> set (iter f n t')"
      by auto
    then show "t \<in> {t. \<exists>ws. set ws \<subseteq> L \<and> s = concat ws @ t}"
    proof cases
      case 1
      have "set [] \<subseteq> L \<and> s = concat [] @ s" by simp
      with 1 show ?thesis by blast
    next
      case 2
      from 2(1) f obtain p where p: "s = p @ t'" "p \<in> L" by auto
      from step [OF 2(1,2)] 2(3) obtain ws where ws: "set ws \<subseteq> L" "t' = concat ws @ t" by auto
      from p ws have "set (p # ws) \<subseteq> L \<and> s = concat (p # ws) @ t" by simp
      then show ?thesis by blast
    qed
  next
    fix t
    assume "t \<in> {t. \<exists>ws. set ws \<subseteq> L \<and> s = concat ws @ t}"
    then obtain ws where ws: "set ws \<subseteq> L" "s = concat ws @ t" by auto
    define vs where "vs = filter (\<lambda>w. w \<noteq> []) ws"
    have vs: "set vs \<subseteq> L" "concat vs = concat ws" "\<forall>w \<in> set vs. w \<noteq> []"
      using ws(1) by (auto simp: vs_def concat_drop_empty)
    show "t \<in> set (iter f (Suc n) s)"
    proof (cases vs)
      case Nil
      with vs ws have "t = s" by simp
      then show ?thesis by simp
    next
      case (Cons p rest)
      let ?t' = "concat rest @ t"
      from Cons vs ws have p: "p \<in> L" "p \<noteq> []" "s = p @ ?t'" "set rest \<subseteq> L"
        by auto
      then have mem: "?t' \<in> set (f s)" and len: "length ?t' < length s"
        using f by auto
      from step [OF mem len] p(4) have "t \<in> set (iter f n ?t')"
        by auto
      with mem len show ?thesis
        by auto
    qed
  qed
qed

lemma set_residuals: "set (residuals r s) = {t. \<exists>p. s = p @ t \<and> p \<in> lang r}"
proof (induction r arbitrary: s)
  case Eps
  show ?case by auto
next
  case (Sym k)
  show ?case by (cases s) auto
next
  case (Cat a b)
  show ?case
  proof (intro set_eqI iffI)
    fix t
    assume "t \<in> set (residuals (Cat a b) s)"
    then obtain m where m: "m \<in> set (residuals a s)" "t \<in> set (residuals b m)"
      by auto
    from m(1) obtain u where u: "s = u @ m" "u \<in> lang a" by (auto simp: Cat)
    from m(2) obtain v where v: "m = v @ t" "v \<in> lang b" by (auto simp: Cat)
    from u v have "s = (u @ v) @ t \<and> u @ v \<in> lang (Cat a b)"
      by auto
    then show "t \<in> {t. \<exists>p. s = p @ t \<and> p \<in> lang (Cat a b)}"
      by blast
  next
    fix t
    assume "t \<in> {t. \<exists>p. s = p @ t \<and> p \<in> lang (Cat a b)}"
    then obtain u v where uv: "s = (u @ v) @ t" "u \<in> lang a" "v \<in> lang b"
      by auto
    then have "v @ t \<in> set (residuals a s)" "t \<in> set (residuals b (v @ t))"
      by (auto simp: Cat)
    then show "t \<in> set (residuals (Cat a b) s)"
      by auto
  qed
next
  case (Alt a b)
  show ?case by (auto simp: Alt)
next
  case (Plus a)
  have it: "set (iter (residuals a) (length t) t) =
      {t'. \<exists>ws. set ws \<subseteq> lang a \<and> t = concat ws @ t'}" for t
    by (rule iter_residuals) (simp_all add: Plus)
  show ?case
  proof (intro set_eqI iffI)
    fix t
    assume "t \<in> set (residuals (Plus a) s)"
    then obtain u where u: "u \<in> set (residuals a s)" "t \<in> set (iter (residuals a) (length u) u)"
      by auto
    from u(1) obtain p where p: "s = p @ u" "p \<in> lang a" by (auto simp: Plus)
    from u(2) it obtain ws where ws: "set ws \<subseteq> lang a" "u = concat ws @ t" by auto
    from p ws have "s = concat (p # ws) @ t \<and> p # ws \<noteq> [] \<and> set (p # ws) \<subseteq> lang a"
      by simp
    then show "t \<in> {t. \<exists>p. s = p @ t \<and> p \<in> lang (Plus a)}"
      by (simp del: concat.simps set_simps) blast
  next
    fix t
    assume "t \<in> {t. \<exists>p. s = p @ t \<and> p \<in> lang (Plus a)}"
    then obtain ws where ws: "s = concat ws @ t" "ws \<noteq> []" "set ws \<subseteq> lang a"
      by auto
    then obtain p rest where pr: "ws = p # rest" by (cases ws) auto
    let ?u = "concat rest @ t"
    from ws pr have "?u \<in> set (residuals a s)"
      by (auto simp: Plus)
    moreover from ws pr it [of ?u] have "t \<in> set (iter (residuals a) (length ?u) ?u)"
      by auto
    ultimately have "\<exists>u \<in> set (residuals a s). t \<in> set (iter (residuals a) (length u) u)"
      by blast
    then show "t \<in> set (residuals (Plus a) s)"
      by simp
  qed
next
  case (Star a)
  have "set (iter (residuals a) (length s) s) =
      {t. \<exists>ws. set ws \<subseteq> lang a \<and> s = concat ws @ t}"
    by (rule iter_residuals) (simp_all add: Star)
  then show ?case by auto
next
  case (Opt a)
  show ?case by (auto simp: Opt)
qed

lemma regexec_lang:
  "regexec r s \<longleftrightarrow> (\<exists>u p v. s = u @ p @ v \<and> p \<in> lang r)"
proof (induction s)
  case Nil
  have "residuals r [] \<noteq> [] \<longleftrightarrow> set (residuals r []) \<noteq> {}" by simp
  then show ?case by (auto simp: set_residuals)
next
  case (Cons x xs)
  have here: "residuals r (x # xs) \<noteq> [] \<longleftrightarrow> (\<exists>p v. x # xs = p @ v \<and> p \<in> lang r)"
  proof -
    have "residuals r (x # xs) \<noteq> [] \<longleftrightarrow> set (residuals r (x # xs)) \<noteq> {}" by simp
    then show ?thesis by (auto simp: set_residuals)
  qed
  show ?case
  proof
    assume "regexec r (x # xs)"
    then consider "residuals r (x # xs) \<noteq> []" | "regexec r xs" by auto
    then show "\<exists>u p v. x # xs = u @ p @ v \<and> p \<in> lang r"
    proof cases
      case 1
      with here obtain p v where "x # xs = [] @ p @ v \<and> p \<in> lang r" by auto
      then show ?thesis by blast
    next
      case 2
      with Cons obtain u p v where "xs = u @ p @ v" "p \<in> lang r" by auto
      then have "x # xs = (x # u) @ p @ v \<and> p \<in> lang r" by simp
      then show ?thesis by blast
    qed
  next
    assume "\<exists>u p v. x # xs = u @ p @ v \<and> p \<in> lang r"
    then obtain u p v where upv: "x # xs = u @ p @ v" "p \<in> lang r" by auto
    show "regexec r (x # xs)"
    proof (cases u)
      case Nil
      with upv have "\<exists>p v. x # xs = p @ v \<and> p \<in> lang r" by auto
      then have "residuals r (x # xs) \<noteq> []" by (simp only: here)
      then show ?thesis by simp
    next
      case (Cons y u')
      with upv have "xs = u' @ p @ v" by simp
      with upv(2) Cons.IH show ?thesis by auto
    qed
  qed
qed

section \<open>Selector\<close>

lemma stringMatch_le: "stringMatch texts pattern \<le> length texts"
  by (induction texts) auto

lemma candidate_at_stringMatch:
  "candidate_at texts (stringMatch texts pattern) = first_matching pattern texts"
  by (induction texts) (auto simp: candidate_at_def first_matching_def)

lemma match_any: "match texts pattern = any_matches pattern texts"
proof (induction texts)
  case Nil
  show ?case by (simp add: match_def any_matches_def)
next
  case (Cons t ts)
  then show ?case by (auto simp: match_def any_matches_def)
qed

lemma stringMatch_end_iff:
  "stringMatch texts pattern = length texts \<longleftrightarrow> first_matching pattern texts = None"
  using match_any [of texts pattern]
  by (auto simp: match_def any_matches_def first_matching_def find_None_iff)

lemma candidate_at_getBestSnmpMib:
  "candidate_at configs (getBestSnmpMib configs) = mib_priority_search configs"
proof -
  let ?pw = "mibPattern (lit ''pw'')" and ?mge = "mibPattern (lit ''mge'')"
    and ?any = "mibPattern (Plus (Sym AnyChar))"
  show ?thesis
  proof (cases "first_matching ?pw configs")
    case (Some c)
    then have "stringMatch configs ?pw \<noteq> length configs"
      by (simp add: stringMatch_end_iff)
    then have "getBestSnmpMib configs = stringMatch configs ?pw"
      by (simp add: getBestSnmpMib_def snmpMibPriority_def Let_def)
    then show ?thesis
      using Some by (simp add: candidate_at_stringMatch mib_priority_search_def)
  next
    case pw: None
    then have e1: "stringMatch configs ?pw = length configs"
      by (simp add: stringMatch_end_iff)
    show ?thesis
    proof (cases "first_matching ?mge configs")
      case (Some c)
      then have "stringMatch configs ?mge \<noteq> length configs"
        by (simp add: stringMatch_end_iff)
      then have "getBestSnmpMib configs = stringMatch configs ?mge"
        using e1 by (simp add: getBestSnmpMib_def snmpMibPriority_def Let_def)
      then show ?thesis
        using pw Some by (simp add: candidate_at_stringMatch mib_priority_search_def)
    next
      case mge: None
      then have e2: "stringMatch configs ?mge = length configs"
        by (simp add: stringMatch_end_iff)
      have "getBestSnmpMib configs = stringMatch configs ?any"
        using e1 e2 by (simp add: getBestSnmpMib_def snmpMibPriority_def Let_def)
      then show ?thesis
        using pw mge by (simp add: candidate_at_stringMatch mib_priority_search_def)
    qed
  qed
qed

lemma candidate_at_selectBest:
  "1 < length configs \<Longrightarrow> candidate_at configs (selectBest configs) = select_policy configs"
  by (auto simp: selectBest_def select_policy_def canSnmp_def isEpdu_def isAts_def canXml_def
      match_any candidate_at_getBestSnmpMib candidate_at_stringMatch)

text \<open>
  Claim C1. For a CandidateSet of more than one member, the candidate \<^verbatim>\<open>selectBest\<close> returns
  is the one the priority policy names: the MIB-priority search (first candidate matching
  \<open>pw\<close>, else first matching \<open>mge\<close>, else first matching the catch-all) when the set can
  SNMP and is an EPDU or an ATS; else the first candidate matching the XML-driver pattern
  when the set can XML; else the MIB-priority search. In particular, when a member is
  EPDU-classified, SNMP-capable and has MIB \<open>pw\<close>, the result is the first candidate with
  MIB \<open>pw\<close>, whatever the other members are.
\<close>

theorem selectBest_priority_policy:
  "1 < length configs \<Longrightarrow>
     candidate_at configs (selectBest configs) = select_policy configs \<and>
     (\<forall>c \<in> set configs.
        Regex_match NUTConfigEpduPattern c \<and> Regex_match NUTConfigCanSnmpPattern c \<and>
        Regex_match (mibPattern (lit ''pw'')) c \<longrightarrow>
        candidate_at configs (selectBest configs) =
          first_matching (mibPattern (lit ''pw'')) configs \<and>
        (\<exists>c'. first_matching (mibPattern (lit ''pw'')) configs = Some c' \<and>
              Regex_match (mibPattern (lit ''pw'')) c'))"
proof (rule conjI [OF _ ballI [OF impI]])
  assume len: "1 < length configs"
  show "candidate_at configs (selectBest configs) = select_policy configs"
    using len by (rule candidate_at_selectBest)
next
  fix c
  assume len: "1 < length configs" and c: "c \<in> set configs"
    and m: "Regex_match NUTConfigEpduPattern c \<and> Regex_match NUTConfigCanSnmpPattern c \<and>
        Regex_match (mibPattern (lit ''pw'')) c"
  let ?pw = "mibPattern (lit ''pw'')"
  from c m have ex: "\<exists>x. x \<in> set configs \<and> Regex_match ?pw x" by blast
  then obtain c' where c': "find (Regex_match ?pw) configs = Some c'"
    by (cases "find (Regex_match ?pw) configs") (auto simp: find_None_iff)
  then have pw: "Regex_match ?pw c'"
    by (auto simp: find_Some_iff)
  from c m have flags: "any_matches NUTConfigCanSnmpPattern configs"
    "any_matches NUTConfigEpduPattern configs"
    by (auto simp: any_matches_def)
  have "select_policy configs = mib_priority_search configs"
    using flags by (simp add: select_policy_def)
  also have "\<dots> = first_matching ?pw configs"
    using c' by (simp add: mib_priority_search_def first_matching_def)
  finally have "candidate_at configs (selectBest configs) = first_matching ?pw configs"
    using candidate_at_selectBest [OF len] by simp
  then show "candidate_at configs (selectBest configs) = first_matching ?pw configs \<and>
        (\<exists>c'. first_matching ?pw configs = Some c' \<and> Regex_match ?pw c')"
    using c' pw by (simp add: first_matching_def)
qed

lemma sample_flags:
  "Regex_match NUTConfigEpduPattern sample_pw"
  "Regex_match NUTConfigCanSnmpPattern sample_pw"
  "Regex_match (mibPattern (lit ''pw'')) sample_pw"
  "\<not> Regex_match (mibPattern (lit ''pw'')) sample_mge"
  "Regex_match (mibPattern (lit ''mge'')) sample_mge"
  by code_simp+

theorem selectBest_priority_policy_witness:
  "1 < length [sample_mge, sample_pw] \<and>
   Regex_match NUTConfigEpduPattern sample_pw \<and>
   Regex_match NUTConfigCanSnmpPattern sample_pw \<and>
   Regex_match (mibPattern (lit ''pw'')) sample_pw \<and>
   Regex_match (mibPattern (lit ''mge'')) sample_mge \<and>
   candidate_at [sample_mge, sample_pw] (selectBest [sample_mge, sample_pw]) = Some sample_pw \<and>
   select_policy [sample_mge, sample_pw] = Some sample_pw"
proof -
  have len: "1 < length [sample_mge, sample_pw]" by simp
  have fm: "first_matching (mibPattern (lit ''pw'')) [sample_mge, sample_pw] = Some sample_pw"
    by (simp add: first_matching_def sample_flags del: lit.simps)
  let ?cs = "[sample_mge, sample_pw]"
  note policy = selectBest_priority_policy [OF len]
  have pol: "candidate_at ?cs (selectBest ?cs) = select_policy ?cs"
    by (rule conjunct1 [OF policy])
  have mem: "sample_pw \<in> set ?cs"
    by simp
  have "candidate_at ?cs (selectBest ?cs) = first_matching (mibPattern (lit ''pw'')) ?cs"
    using conjunct2 [OF policy] mem sample_flags(1,2,3) by blast
  with fm have sel: "candidate_at ?cs (selectBest ?cs) = Some sample_pw"
    by (simp only:)
  from pol sel have "select_policy ?cs = Some sample_pw"
    by (simp only:)
  with sel len sample_flags show ?thesis
    by blast
qed

text \<open>
  Claim C2. For a CandidateSet of 0 or 1 members, \<^verbatim>\<open>selectBest\<close> returns \<^verbatim>\<open>begin()\<close>: the sole
  member whatever its content, or none (\<^verbatim>\<open>begin() == end()\<close>) for the empty set.
\<close>

theorem selectBest_small_set:
  "length configs \<le> 1 \<Longrightarrow>
     selectBest configs = 0 \<and>
     candidate_at configs (selectBest configs) = (case configs of [] \<Rightarrow> None | c # cs \<Rightarrow> Some c)"
  by (cases configs) (simp_all add: selectBest_def candidate_at_def)

theorem selectBest_small_set_witness:
  "length [''anything''] \<le> 1 \<and> selectBest [''anything''] = 0 \<and>
   candidate_at [''anything''] (selectBest [''anything'']) = Some ''anything''"
  using selectBest_small_set [of "[''anything'']"] by (simp add: candidate_at_def)

section \<open>Reconciler\<close>

lemma execs_append: "execs (xs @ ys) = execs xs @ execs ys"
  by (induction xs rule: execs.induct) auto

lemma execs_map_Exec: "execs (map (\<lambda>argv. Exec argv (f argv)) argvs) = argvs"
  by (induction argvs) auto

lemma new_events_append: "trace st' = trace st @ evs \<Longrightarrow> new_events st st' = evs"
  by (simp add: new_events_def)

lemma systemctl_effect:
  "systemctl e operation units st =
     st\<lparr>trace := trace st @ map (\<lambda>argv. Exec argv (run e argv)) (batch operation units)\<rparr>"
  by (simp add: systemctl_def batch_def Let_def)

lemma updateNUTConfig_effect:
  "updateNUTConfig e st = st\<lparr>trace := trace st @ [Exec helper_call (run e helper_call)]\<rparr>"
  by (simp add: updateNUTConfig_def helper_call_def Let_def)

lemma commit_effect:
  "commit e st =
     st\<lparr>trace := trace st @
            map (\<lambda>argv. Exec argv (run e argv))
              (commit_sequence (stop_drivers st) (start_drivers st)),
        stop_drivers := [], start_drivers := []\<rparr>"
  by (simp add: commit_def systemctl1_def systemctl_effect updateNUTConfig_effect
      commit_sequence_def umbrella_call_def batch_def Let_def)

text \<open>
  Claim C5. Every \<^verbatim>\<open>commit\<close> starts its subprocesses in this order: disable the to-stop
  services, stop them, the configuration-regeneration helper, restart the to-start services,
  enable them, and the reload-or-restart of the umbrella service iff either set was
  non-empty; then both sets are empty. This holds whatever the process facility reports
  for each invocation, failures included, and no file is touched.
\<close>

theorem commit_ordered_actions:
  "trace (commit e st) =
     trace st @ map (\<lambda>argv. Exec argv (run e argv))
                  (commit_sequence (stop_drivers st) (start_drivers st)) \<and>
   stop_drivers (commit e st) = [] \<and> start_drivers (commit e st) = [] \<and>
   files (commit e st) = files st"
  by (simp add: commit_effect)

theorem commit_ordered_actions_witness:
  "trace (commit sample_env pending_state) =
     [Exec [''sudo'', ''systemctl'', ''disable'', ''nut-driver@ups2'', ''nut-driver@ups3''] None,
      Exec [''sudo'', ''systemctl'', ''stop'', ''nut-driver@ups2'', ''nut-driver@ups3''] None,
      Exec [''sudo'', ''fty-nutconfig''] None,
      Exec [''sudo'', ''systemctl'', ''restart'', ''nut-driver@ups1''] None,
      Exec [''sudo'', ''systemctl'', ''enable'', ''nut-driver@ups1''] None,
      Exec [''sudo'', ''systemctl'', ''reload-or-restart'', ''nut-server''] None] \<and>
   stop_drivers (commit sample_env pending_state) = [] \<and>
   start_drivers (commit sample_env pending_state) = []"
  using commit_ordered_actions [of sample_env pending_state]
  by (simp add: pending_state_def sample_env_def commit_sequence_def batch_def helper_call_def
      umbrella_call_def)

lemma commit_execs:
  "execs (new_events st (commit e st)) = commit_sequence (stop_drivers st) (start_drivers st)"
  by (simp add: commit_effect new_events_def execs_map_Exec)

lemma calls_of_batch:
  "calls_of verb (batch verb' services) = (if verb = verb' then batch verb' services else [])"
  by (simp add: calls_of_def batch_def)

lemma batch_Nil: "batch verb [] = []"
  by (simp add: batch_def)

lemma calls_of_append: "calls_of verb (xs @ ys) = calls_of verb xs @ calls_of verb ys"
  by (simp add: calls_of_def)

lemma calls_of_helper: "calls_of verb (helper_call # argvs) = calls_of verb argvs"
  by (simp add: calls_of_def helper_call_def)

lemma calls_of_Nil: "calls_of verb [] = []"
  by (simp add: calls_of_def)

lemma calls_of_umbrella:
  "calls_of verb [umbrella_call] = (if verb = ''reload-or-restart'' then [umbrella_call] else [])"
  by (auto simp: calls_of_def umbrella_call_def)

lemma helper_in_batch: "filter (\<lambda>argv. argv = helper_call) (batch verb services) = []"
  by (simp add: batch_def helper_call_def)

lemma helper_once:
  "filter (\<lambda>argv. argv = helper_call) (commit_sequence to_stop to_start) = [helper_call]"
  by (simp add: commit_sequence_def helper_in_batch) (simp add: helper_call_def umbrella_call_def)

text \<open>
  Claim C10. A \<^verbatim>\<open>commit\<close> with \<open>stop_drivers\<close> empty starts no disable and no stop call; with
  \<open>start_drivers\<close> empty, no restart and no enable call; with both empty, no
  reload-or-restart either, so that the helper is the only subprocess. The helper is
  started exactly once by every \<^verbatim>\<open>commit\<close>.
\<close>

theorem commit_empty_sets:
  "(stop_drivers st = [] \<longrightarrow>
      calls_of ''disable'' (execs (new_events st (commit e st))) = [] \<and>
      calls_of ''stop'' (execs (new_events st (commit e st))) = []) \<and>
   (start_drivers st = [] \<longrightarrow>
      calls_of ''restart'' (execs (new_events st (commit e st))) = [] \<and>
      calls_of ''enable'' (execs (new_events st (commit e st))) = []) \<and>
   (stop_drivers st = [] \<and> start_drivers st = [] \<longrightarrow>
      calls_of ''reload-or-restart'' (execs (new_events st (commit e st))) = [] \<and>
      execs (new_events st (commit e st)) = [helper_call]) \<and>
   filter (\<lambda>argv. argv = helper_call) (execs (new_events st (commit e st))) = [helper_call]"
proof -
  let ?xs = "commit_sequence (stop_drivers st) (start_drivers st)"
  have stop: "stop_drivers st = [] \<Longrightarrow> calls_of ''disable'' ?xs = [] \<and> calls_of ''stop'' ?xs = []"
    by (simp add: commit_sequence_def calls_of_append calls_of_batch calls_of_helper
        calls_of_umbrella calls_of_Nil batch_Nil)
  have start: "start_drivers st = [] \<Longrightarrow> calls_of ''restart'' ?xs = [] \<and> calls_of ''enable'' ?xs = []"
    by (simp add: commit_sequence_def calls_of_append calls_of_batch calls_of_helper
        calls_of_umbrella calls_of_Nil batch_Nil)
  have both: "stop_drivers st = [] \<Longrightarrow> start_drivers st = [] \<Longrightarrow>
      calls_of ''reload-or-restart'' ?xs = [] \<and> ?xs = [helper_call]"
    by (simp add: commit_sequence_def batch_Nil calls_of_helper calls_of_Nil)
  show ?thesis
    unfolding commit_execs using stop start both helper_once [of "stop_drivers st" "start_drivers st"]
    by blast
qed

theorem commit_empty_sets_witness:
  "stop_drivers fresh_state = [] \<and> start_drivers fresh_state = [] \<and>
   trace (commit sample_env fresh_state) = [Exec [''sudo'', ''fty-nutconfig''] None] \<and>
   execs (new_events fresh_state (commit sample_env fresh_state)) = [helper_call]"
proof -
  have empty: "stop_drivers fresh_state = []" "start_drivers fresh_state = []"
    by (simp_all add: fresh_state_def)
  have "execs (new_events fresh_state (commit sample_env fresh_state)) = [helper_call]"
    using commit_empty_sets [of fresh_state sample_env] empty by blast
  moreover have "trace (commit sample_env fresh_state) = [Exec [''sudo'', ''fty-nutconfig''] None]"
    by (simp add: commit_effect commit_sequence_def batch_def helper_call_def fresh_state_def
        sample_env_def)
  ultimately show ?thesis
    using empty by simp
qed

text \<open>
  Claim C7 (what the code does instead). \<^verbatim>\<open>systemctl\<close> on a non-empty range starts exactly one
  subprocess, whose command line holds every service name of the range, however many
  there are: nothing is split into chunks.
\<close>

theorem systemctl_one_call_for_any_size:
  "units \<noteq> [] \<Longrightarrow>
     execs (new_events st (systemctl e operation units st)) =
       [[''sudo'', ''systemctl'', operation] @ units] \<and>
     (\<forall>argv \<in> set (execs (new_events st (systemctl e operation units st))).
        length argv = 3 + length units)"
  by (simp add: systemctl_effect new_events_def execs_map_Exec batch_def)

theorem systemctl_one_call_for_any_size_witness:
  "[''a'', ''b'', ''c''] \<noteq> [] \<and>
   execs (new_events fresh_state (systemctl sample_env ''stop'' [''a'', ''b'', ''c''] fresh_state)) =
     [[''sudo'', ''systemctl'', ''stop'', ''a'', ''b'', ''c'']]"
  using systemctl_one_call_for_any_size [of "[''a'', ''b'', ''c'']" fresh_state sample_env "''stop''"]
  by simp

section \<open>Renderer and Change Detector\<close>

lemma match_single: "match [s] pattern = Regex_match pattern s"
  by (simp add: match_def)

lemma render_cfg_rendered_text: "render_cfg s polling = rendered_text s polling"
  by (simp add: render_cfg_def rendered_text_def tuning_lines_def synchronous_line_def
      timeout_line_def cadence_line_def isEpdu_def canSnmp_def canXml_def match_single Let_def)

lemma config_name_path: "c_str (NUT_PART_STORE @ path_separator @ name) = config_path name"
  by (simp add: NUT_PART_STORE_def path_separator_def config_path_def c_str_def)

lemma write_config_none:
  "selectBest configs = length configs \<Longrightarrow> write_config e name polling configs st = (False, st)"
  by (simp add: write_config_def)


lemma write_config_write:
  assumes "selectBest configs \<noteq> length configs"
    and "should_write e st name (render_cfg (configs ! selectBest configs) polling)"
  shows "write_config e name polling configs st =
           (True, st\<lparr>files := (if opens_for_write e (config_path name)
                               then (files st)(config_path name \<mapsto>
                                      render_cfg (configs ! selectBest configs) polling)
                               else files st),
                     trace := trace st @ [MkdirIfNeeded NUT_PART_STORE,
                        Write (config_path name) (render_cfg (configs ! selectBest configs) polling)],
                     start_drivers := set_insert (driver_service name) (start_drivers st)\<rparr>)"
  using assms
  by (auto simp: write_config_def should_write_def s_digest_file_def s_digest_stream_def
      config_name_path driver_service_def Let_def split: option.splits if_splits)

lemma configure_gathered:
  "gather_configs e name info = Inr (Some configs) \<Longrightarrow>
     configure e name info st = Inr (write_config e name (polling_interval e) configs st)"
  by (simp add: configure_def)





lemma sample_pw_flags:
  "Regex_match NUTConfigEpduPattern sample_pw"
  "Regex_match NUTConfigCanSnmpPattern sample_pw"
  "\<not> Regex_match NUTConfigXMLPattern sample_pw"
  by code_simp+

lemma sample_gathered: "gather_configs sample_env ''ups1'' probed_asset = Inr (Some [sample_pw])"
  by (simp add: gather_configs_def probed_asset_def probe_configs_def read_communities_def
      sample_env_def)


lemma sample_selected: "selectBest [sample_pw] = 0"
  by (simp add: selectBest_def)

lemma sample_render: "render_cfg sample_pw ''60'' = sample_rendered"
  by (simp add: render_cfg_rendered_text rendered_text_def tuning_lines_def sample_pw_flags
      synchronous_line_def cadence_line_def sample_rendered_def)

lemma sample_path: "config_path ''ups1'' = ''/var/lib/fty/fty-nut/devices/ups1''"
  by (simp add: config_path_def c_str_def)

lemma sample_opens:
  "opens_for_read sample_env path"
  "opens_for_write sample_env path"
  by (simp_all add: sample_env_def)

lemma sample_first_run:
  "configure sample_env ''ups1'' probed_asset fresh_state = Inr (True, configured_state)"
proof -
  have p: "polling_interval sample_env = ''60''"
    by (simp add: polling_interval_def sample_env_def)
  have sel: "selectBest [sample_pw] \<noteq> length [sample_pw]"
    by (simp add: sample_selected)
  have w: "should_write sample_env fresh_state ''ups1''
             (render_cfg ([sample_pw] ! selectBest [sample_pw]) ''60'')"
    by (simp add: should_write_def fresh_state_def)
  show ?thesis
    unfolding configure_gathered [OF sample_gathered] p write_config_write [OF sel w]
    by (simp add: sample_selected sample_render fresh_state_def configured_state_def
        sample_path sample_opens NUT_PART_STORE_def driver_service_def set_insert_def
        insort_insert_key_def)
qed



lemma cadence_lines_count:
  "length (filter (\<lambda>l. l = cadence_line True polling \<or> l = cadence_line False polling)
             (tuning_lines epdu snmp xml polling)) = 1"
  by (simp add: tuning_lines_def synchronous_line_def timeout_line_def cadence_line_def)

text \<open>
  Claim C4. The text \<^verbatim>\<open>configure\<close> renders is the selected candidate's text followed by the
  synchronous-mode line iff the candidate is EPDU-classified and SNMP-capable, the line
  \<open>timeout = 15\<close> iff it is XML-capable, and one polling-cadence line, \<open>pollfreq\<close> if it is
  SNMP-capable and \<open>pollinterval\<close> otherwise, whose value is the polling interval: the
  configured one, or \<open>30\<close>. Among the appended lines exactly one is a cadence line. When
  \<^verbatim>\<open>configure\<close> writes, this text is what it streams to the device's file, and the content
  of that file once it opens for writing.
\<close>

theorem configure_rendered_text:
  "render_cfg selected polling = rendered_text selected polling \<and>
   length (filter (\<lambda>l. l = cadence_line True polling \<or> l = cadence_line False polling)
             (tuning_lines epdu snmp xml polling)) = 1 \<and>
   polling_interval e = (case polling_cfg e of Some (Some v) \<Rightarrow> v | _ \<Rightarrow> ''30'') \<and>
   (\<forall>configs. gather_configs e name info = Inr (Some configs) \<and>
       selectBest configs \<noteq> length configs \<and>
       should_write e st name (rendered_text (configs ! selectBest configs) (polling_interval e)) \<longrightarrow>
       (\<exists>st'. configure e name info st = Inr (True, st') \<and>
          writes (new_events st st') =
            [(config_path name,
              rendered_text (configs ! selectBest configs) (polling_interval e))] \<and>
          (opens_for_write e (config_path name) \<longrightarrow>
             files st' (config_path name) =
               Some (rendered_text (configs ! selectBest configs) (polling_interval e)))))"
proof (intro conjI allI impI)
  show "render_cfg selected polling = rendered_text selected polling"
    by (rule render_cfg_rendered_text)
  show "length (filter (\<lambda>l. l = cadence_line True polling \<or> l = cadence_line False polling)
             (tuning_lines epdu snmp xml polling)) = 1"
    by (rule cadence_lines_count)
  show "polling_interval e = (case polling_cfg e of Some (Some v) \<Rightarrow> v | _ \<Rightarrow> ''30'')"
    by (simp add: polling_interval_def split: option.splits)
next
  fix configs
  assume a: "gather_configs e name info = Inr (Some configs) \<and>
       selectBest configs \<noteq> length configs \<and>
       should_write e st name (rendered_text (configs ! selectBest configs) (polling_interval e))"
  then have sel: "selectBest configs \<noteq> length configs"
    and w: "should_write e st name (render_cfg (configs ! selectBest configs) (polling_interval e))"
    by (simp_all add: render_cfg_rendered_text)
  from a have "configure e name info st =
      Inr (write_config e name (polling_interval e) configs st)"
    by (simp add: configure_gathered)
  then show "\<exists>st'. configure e name info st = Inr (True, st') \<and>
          writes (new_events st st') =
            [(config_path name,
              rendered_text (configs ! selectBest configs) (polling_interval e))] \<and>
          (opens_for_write e (config_path name) \<longrightarrow>
             files st' (config_path name) =
               Some (rendered_text (configs ! selectBest configs) (polling_interval e)))"
    unfolding write_config_write [OF sel w]
    by (simp add: render_cfg_rendered_text new_events_def)
qed

theorem configure_rendered_text_witness:
  "gather_configs sample_env ''ups1'' probed_asset = Inr (Some [sample_pw]) \<and>
   selectBest [sample_pw] \<noteq> length [sample_pw] \<and>
   should_write sample_env fresh_state ''ups1'' (rendered_text sample_pw ''60'') \<and>
   opens_for_write sample_env (config_path ''ups1'') \<and>
   rendered_text sample_pw ''60'' =
     sample_pw @ CHR 0x09 # ''synchronous = yes\<newline>'' @ CHR 0x09 # ''pollfreq = 60\<newline>'' \<and>
   render_cfg sample_xml ''30'' =
     sample_xml @ CHR 0x09 # ''timeout = 15\<newline>'' @ CHR 0x09 # ''pollinterval = 30\<newline>'' \<and>
   polling_interval silent_env = ''30'' \<and>
   files configured_state (config_path ''ups1'') = Some (rendered_text sample_pw ''60'')"
proof -
  have p: "polling_interval sample_env = ''60''"
    by (simp add: polling_interval_def sample_env_def)
  have sel: "selectBest [sample_pw] \<noteq> length [sample_pw]"
    by (simp add: sample_selected)
  have rt: "rendered_text sample_pw ''60'' = sample_rendered"
    using sample_render by (simp add: render_cfg_rendered_text)
  have w: "should_write sample_env fresh_state ''ups1'' (rendered_text sample_pw ''60'')"
    by (simp add: should_write_def fresh_state_def)
  note inst = configure_rendered_text [of sample_xml "''30''" True True True silent_env
      "''ups1''" probed_asset fresh_state]
  have xml_flags: "\<not> Regex_match NUTConfigEpduPattern sample_xml"
    "\<not> Regex_match NUTConfigCanSnmpPattern sample_xml"
    "Regex_match NUTConfigXMLPattern sample_xml"
    by code_simp+
  have xml: "render_cfg sample_xml ''30'' =
     sample_xml @ CHR 0x09 # ''timeout = 15\<newline>'' @ CHR 0x09 # ''pollinterval = 30\<newline>''"
    using conjunct1 [OF inst]
    by (simp add: rendered_text_def tuning_lines_def xml_flags timeout_line_def cadence_line_def)
  have dflt: "polling_interval silent_env = ''30''"
    using inst by (simp add: silent_env_def)
  note inst2 = configure_rendered_text [of sample_pw "''60''" True True True sample_env
      "''ups1''" probed_asset fresh_state]
  have prem: "gather_configs sample_env ''ups1'' probed_asset = Inr (Some [sample_pw]) \<and>
       selectBest [sample_pw] \<noteq> length [sample_pw] \<and>
       should_write sample_env fresh_state ''ups1''
         (rendered_text ([sample_pw] ! selectBest [sample_pw]) (polling_interval sample_env))"
    using sample_gathered sel w by (simp add: p sample_selected)
  have "\<exists>st'. configure sample_env ''ups1'' probed_asset fresh_state = Inr (True, st') \<and>
          files st' (config_path ''ups1'') = Some (rendered_text sample_pw ''60'')"
    using inst2 [THEN conjunct2, THEN conjunct2, THEN conjunct2, THEN spec, THEN mp, OF prem]
      sample_opens(2)
    by (auto simp: p sample_selected)
  then have "files configured_state (config_path ''ups1'') = Some (rendered_text sample_pw ''60'')"
    using sample_first_run by simp
  with sample_gathered sel w rt xml dflt sample_opens(2) show ?thesis
    by (simp add: sample_rendered_def)
qed

section \<open>Override blocks and retryable devices\<close>

lemma upsconf_configs_short:
  "length block < 2 \<Longrightarrow> CHR 0x00 \<notin> set block \<Longrightarrow> upsconf_configs name block = Inl OutOfRange"
  by (cases block) (auto simp: upsconf_configs_def Let_def)

lemma upsconf_configs_nul:
  "block \<noteq> [] \<Longrightarrow> block ! 0 = CHR 0x00 \<or> (1 < length block \<and> block ! 1 = CHR 0x00) \<Longrightarrow>
     upsconf_configs name block = Inr [''['' @ name @ '']\<newline>\<newline>'']"
  by (cases block) (auto simp: upsconf_configs_def Let_def)

lemma upsconf_configs_block:
  assumes "2 \<le> length block" "block ! 0 \<noteq> CHR 0x00" "block ! 1 \<noteq> CHR 0x00"
  shows "upsconf_configs name block = Inr [block_candidate name block]"
proof -
  from assms(1) obtain sep c rest where b: "block = sep # c # rest"
    by (cases block; cases "tl block") auto
  show ?thesis
    using assms(2,3) unfolding b
    by (simp add: upsconf_configs_def block_candidate_def substitute_separator_def Let_def)
qed

lemma gather_block:
  "have_upsconf_block info \<Longrightarrow>
     gather_configs e name info =
       (case upsconf_configs name (upsconf_block info) of
          Inl err \<Rightarrow> Inl err | Inr configs \<Rightarrow> Inr (Some configs))"
  by (simp add: gather_configs_def)

text \<open>
  Claim C8, amended. For an override block of at least two characters whose first two
  characters are not NUL, the first character is the separator: it is dropped, and in the
  rest every occurrence of it becomes a newline. The sole candidate is this body followed
  by a newline when the body starts with \<open>[\<close>, and otherwise the device tag made of the
  device's name, a newline, the body and a newline; \<^verbatim>\<open>selectBest\<close> picks it. The block
  \<open>|A|B=1\<close> of device \<open>dev1\<close> gives \<open>[dev1]\<close>, \<open>A\<close>, \<open>B=1\<close>, each closed by a newline.
\<close>

theorem upsconf_block_sole_candidate:
  "have_upsconf_block info \<Longrightarrow> 2 \<le> length (upsconf_block info) \<Longrightarrow>
   upsconf_block info ! 0 \<noteq> CHR 0x00 \<Longrightarrow> upsconf_block info ! 1 \<noteq> CHR 0x00 \<Longrightarrow>
     gather_configs e name info = Inr (Some [block_candidate name (upsconf_block info)]) \<and>
     candidate_at [block_candidate name (upsconf_block info)]
       (selectBest [block_candidate name (upsconf_block info)]) =
       Some (block_candidate name (upsconf_block info)) \<and>
     block_candidate name (upsconf_block info) =
       (if hd (substitute_separator (upsconf_block info)) = CHR ''[''
        then substitute_separator (upsconf_block info) @ ''\<newline>''
        else ''['' @ name @ '']\<newline>'' @ substitute_separator (upsconf_block info) @ ''\<newline>'')"
  by (simp add: gather_block upsconf_configs_block selectBest_def candidate_at_def
      block_candidate_def Let_def)

theorem upsconf_block_sole_candidate_witness:
  "have_upsconf_block (block_asset ''|A|B=1'') \<and>
   2 \<le> length (upsconf_block (block_asset ''|A|B=1'')) \<and>
   upsconf_block (block_asset ''|A|B=1'') ! 0 \<noteq> CHR 0x00 \<and>
   upsconf_block (block_asset ''|A|B=1'') ! 1 \<noteq> CHR 0x00 \<and>
   gather_configs sample_env ''dev1'' (block_asset ''|A|B=1'') =
     Inr (Some [''[dev1]\<newline>A\<newline>B=1\<newline>'']) \<and>
   upsconf_configs ''dev1'' ''|[x]|B=1'' = Inr [''[x]\<newline>B=1\<newline>'']"
proof -
  have h: "have_upsconf_block (block_asset ''|A|B=1'')"
    "2 \<le> length (upsconf_block (block_asset ''|A|B=1''))"
    "upsconf_block (block_asset ''|A|B=1'') ! 0 \<noteq> CHR 0x00"
    "upsconf_block (block_asset ''|A|B=1'') ! 1 \<noteq> CHR 0x00"
    by (simp_all add: block_asset_def)
  have "block_candidate ''dev1'' (upsconf_block (block_asset ''|A|B=1'')) =
      ''[dev1]\<newline>A\<newline>B=1\<newline>''"
    by (simp add: block_candidate_def substitute_separator_def block_asset_def)
  moreover have "upsconf_configs ''dev1'' ''|[x]|B=1'' = Inr [''[x]\<newline>B=1\<newline>'']"
    by (simp add: upsconf_configs_def)
  ultimately show ?thesis
    using upsconf_block_sole_candidate [OF h, of sample_env "''dev1''"] h by simp
qed

text \<open>
  Claim C8 as stated fails on its own example: in the block \<open>A\<close>, newline, \<open>B=1\<close>, newline
  the letter \<open>A\<close> is taken as the separator, and a newline is appended.
\<close>

theorem upsconf_block_spec_example_fails:
  "upsconf_configs ''dev1'' ''A\<newline>B=1\<newline>'' = Inr [''[dev1]\<newline>\<newline>B=1\<newline>\<newline>''] \<and>
   upsconf_configs ''dev1'' ''A\<newline>B=1\<newline>'' \<noteq> Inr [''[dev1]\<newline>A\<newline>B=1\<newline>'']"
  by (simp add: upsconf_configs_def)

text \<open>
  Claim C9. For an asset with an override block: a block shorter than two characters, none
  of them NUL, makes \<^verbatim>\<open>configure\<close> throw \<^verbatim>\<open>std::out_of_range\<close>; the candidate of an empty
  block, the device tag and an empty line, is produced when the block's first or second
  character is NUL; every other block goes through the separator substitution.
\<close>

theorem configure_short_block_throws:
  "have_upsconf_block info \<Longrightarrow>
     (length (upsconf_block info) < 2 \<and> CHR 0x00 \<notin> set (upsconf_block info) \<longrightarrow>
        configure e name info st = Inl OutOfRange) \<and>
     (upsconf_block info \<noteq> [] \<and>
      (upsconf_block info ! 0 = CHR 0x00 \<or>
       (1 < length (upsconf_block info) \<and> upsconf_block info ! 1 = CHR 0x00)) \<longrightarrow>
        gather_configs e name info = Inr (Some [''['' @ name @ '']\<newline>\<newline>''])) \<and>
     (2 \<le> length (upsconf_block info) \<and> upsconf_block info ! 0 \<noteq> CHR 0x00 \<and>
      upsconf_block info ! 1 \<noteq> CHR 0x00 \<longrightarrow>
        gather_configs e name info = Inr (Some [block_candidate name (upsconf_block info)]))"
  by (simp add: gather_block upsconf_configs_block upsconf_configs_nul upsconf_configs_short
      configure_def)

theorem configure_short_block_throws_witness:
  "have_upsconf_block (block_asset '''') \<and> have_upsconf_block (block_asset ''x'') \<and>
   configure sample_env ''dev1'' (block_asset '''') fresh_state = Inl OutOfRange \<and>
   configure sample_env ''dev1'' (block_asset ''x'') fresh_state = Inl OutOfRange \<and>
   gather_configs sample_env ''dev1'' (block_asset [CHR 0x00]) = Inr (Some [''[dev1]\<newline>\<newline>''])"
proof -
  have h: "have_upsconf_block (block_asset b)" for b
    by (simp add: block_asset_def)
  have "configure sample_env ''dev1'' (block_asset '''') fresh_state = Inl OutOfRange"
    using configure_short_block_throws [OF h, of "''''" sample_env "''dev1''" fresh_state]
    by (simp add: block_asset_def)
  moreover have "configure sample_env ''dev1'' (block_asset ''x'') fresh_state = Inl OutOfRange"
    using configure_short_block_throws [OF h, of "''x''" sample_env "''dev1''" fresh_state]
    by (simp add: block_asset_def)
  moreover have "gather_configs sample_env ''dev1'' (block_asset [CHR 0x00]) =
      Inr (Some [''[dev1]\<newline>\<newline>''])"
    using configure_short_block_throws [OF h, of "[CHR 0x00]" sample_env "''dev1''" fresh_state]
    by (simp add: block_asset_def)
  ultimately show ?thesis
    using h by simp
qed

text \<open>
  Claim C6, amended. A device without override block and without IP address makes
  \<^verbatim>\<open>configure\<close> return true, the value of a configured device, and leaves the state as it
  is. When probing yields no candidate, or \<^verbatim>\<open>selectBest\<close> returns \<^verbatim>\<open>end()\<close>, \<^verbatim>\<open>configure\<close>
  returns false, to be tried again later, and leaves the state as it is: no file is
  written, neither set changes.
\<close>

theorem configure_retry_or_skip:
  "(\<not> have_upsconf_block info \<and> IP info = [] \<longrightarrow> configure e name info st = Inr (True, st)) \<and>
   (\<not> have_upsconf_block info \<and> IP info \<noteq> [] \<and> probe_configs e name info = [] \<longrightarrow>
      configure e name info st = Inr (False, st)) \<and>
   (\<forall>configs. gather_configs e name info = Inr (Some configs) \<and>
      selectBest configs = length configs \<longrightarrow> configure e name info st = Inr (False, st))"
  by (auto simp: configure_def gather_configs_def write_config_none selectBest_def)

text \<open>
  Claim C6 as stated fails for a device without IP address: \<^verbatim>\<open>configure\<close> returns true,
  not the retry signal.
\<close>

theorem configure_no_ip_returns_true:
  "configure silent_env ''ups1'' no_ip_asset fresh_state = Inr (True, fresh_state)"
  by (simp add: configure_def gather_configs_def no_ip_asset_def)

theorem configure_retry_or_skip_witness:
  "\<not> have_upsconf_block no_ip_asset \<and> IP no_ip_asset = [] \<and>
   \<not> have_upsconf_block probed_asset \<and> IP probed_asset \<noteq> [] \<and>
   probe_configs silent_env ''ups1'' probed_asset = [] \<and>
   gather_configs silent_env ''ups1'' probed_asset = Inr (Some []) \<and>
   selectBest [] = length ([] :: string list) \<and>
   configure sample_env ''ups1'' no_ip_asset configured_state = Inr (True, configured_state) \<and>
   configure silent_env ''ups1'' probed_asset configured_state = Inr (False, configured_state)"
proof -
  have a: "\<not> have_upsconf_block no_ip_asset \<and> IP no_ip_asset = []"
    by (simp add: no_ip_asset_def)
  have p: "probe_configs silent_env ''ups1'' probed_asset = []"
    by (simp add: probe_configs_def read_communities_def silent_env_def probed_asset_def)
  have b: "\<not> have_upsconf_block probed_asset \<and> IP probed_asset \<noteq> [] \<and>
      probe_configs silent_env ''ups1'' probed_asset = []"
    using p by (simp add: probed_asset_def)
  have g: "gather_configs silent_env ''ups1'' probed_asset = Inr (Some [])"
    using p by (simp add: gather_configs_def probed_asset_def)
  have s: "selectBest [] = length ([] :: string list)"
    by (simp add: selectBest_def)
  note t1 = configure_retry_or_skip [of no_ip_asset sample_env "''ups1''" configured_state]
  note t2 = configure_retry_or_skip [of probed_asset silent_env "''ups1''" configured_state]
  have "configure sample_env ''ups1'' no_ip_asset configured_state = Inr (True, configured_state)"
    using t1 a by blast
  moreover have "configure silent_env ''ups1'' probed_asset configured_state =
      Inr (False, configured_state)"
    using t2 b by blast
  ultimately show ?thesis
    using a b g s by blast
qed

end
